theory Spec2Isabelle
  imports Main "HOL-Library.Multiset"
begin

section \<open>Objects, identity and generators\<close>

text \<open>
  A Python object is referred to by its address, the value of \<open>id(o)\<close>. The operator
  \<open>is\<close> compares addresses and nothing else. The heap gives what \<open>repr(o)\<close> does for
  each object: it returns a string, or it raises, since a class may define \<open>__repr__\<close>
  freely. The heap is frozen while the helpers run (the capture works on a stopped
  process).
\<close>

type_synonym ref = nat

definition py_is :: "ref \<Rightarrow> ref \<Rightarrow> bool" where
  "py_is a b = (a = b)"

datatype py_error = IndexError | KeyError | TypeError | UserError

record heap =
  py_repr :: "ref \<Rightarrow> py_error + string"

text \<open>
  A generator that runs over finite Python iterables yields a finite sequence of items and
  then either stops normally or is ended by an exception: the items yielded, and the
  exception if there is one.
\<close>

type_synonym 'a gen = "'a list \<times> py_error option"

definition gen_stop :: "'a gen" where
  "gen_stop = ([], None)"

definition gen_raise :: "py_error \<Rightarrow> 'a gen" where
  "gen_raise e = ([], Some e)"

text \<open>\<open>gen_then ys g\<close> yields the items \<open>ys\<close> and goes on as \<open>g\<close>.\<close>

definition gen_then :: "'a list \<Rightarrow> 'a list \<times> 'b \<Rightarrow> 'a list \<times> 'b" where
  "gen_then ys g = (ys @ fst g, snd g)"

section \<open>\<open>find_in_tuple_or_list\<close>\<close>

text \<open>
  The counter \<open>i\<close> of the three loops is declared \<open>cdef int\<close>: a 32-bit signed C
  integer. The loop \<open>for i in range(n)\<close> over such a counter is the C loop
  \<open>for (i = 0; i < n; i++)\<close>, in which \<open>i++\<close> at the largest value, \<open>INT_MAX\<close>,
  wraps around to the smallest one, \<open>INT_MIN\<close>, as the compiled code does.
\<close>

definition INT_MAX :: int where
  "INT_MAX = 2147483647"

definition INT_MIN :: int where
  "INT_MIN = - 2147483648"

definition cint_succ :: "int \<Rightarrow> int" where
  "cint_succ i = (if i = INT_MAX then INT_MIN else i + 1)"

text \<open>
  The container argument is any Python object. A \<open>list\<close> and a \<open>tuple\<close> are given by
  their items; every other object is given by what \<open>len(container)\<close> returns or raises and
  by what \<open>container[i]\<close> returns or raises at the integer \<open>i\<close>.

  Indexing a list or a tuple with a C integer counts a negative index from the end and
  raises \<open>IndexError\<close> out of range.
\<close>

datatype container =
    PyList "ref list"
  | PyTuple "ref list"
  | PyOther "py_error + nat" "int \<Rightarrow> py_error + ref"

definition list_getitem :: "ref list \<Rightarrow> int \<Rightarrow> py_error + ref" where
  "list_getitem xs i =
     (let j = (if i < 0 then i + int (length xs) else i)
      in if 0 \<le> j \<and> j < int (length xs) then Inr (xs ! nat j) else Inl IndexError)"

definition tuple_getitem :: "ref list \<Rightarrow> int \<Rightarrow> py_error + ref" where
  "tuple_getitem xs i =
     (let j = (if i < 0 then i + int (length xs) else i)
      in if 0 \<le> j \<and> j < int (length xs) then Inr (xs ! nat j) else Inl IndexError)"

fun py_len :: "container \<Rightarrow> py_error + nat" where
  "py_len (PyList xs) = Inr (length xs)"
| "py_len (PyTuple xs) = Inr (length xs)"
| "py_len (PyOther n g) = n"

fun py_getitem :: "container \<Rightarrow> int \<Rightarrow> py_error + ref" where
  "py_getitem (PyList xs) i = list_getitem xs i"
| "py_getitem (PyTuple xs) i = tuple_getitem xs i"
| "py_getitem (PyOther n g) i = g i"

text \<open>
  A loop over a C counter need not end, so the generator is observed for a bounded number
  of rounds: the items yielded within \<open>fuel\<close> evaluations of the loop condition, and
  whether the generator has ended by then, normally or with an exception, or is still
  running.
\<close>

datatype ending = Running | Ended "py_error option"

type_synonym 'a run = "'a list \<times> ending"

definition run_stop :: "'a run" where
  "run_stop = ([], Ended None)"

definition run_raise :: "py_error \<Rightarrow> 'a run" where
  "run_raise e = ([], Ended (Some e))"

text \<open>
  The three loops of the source. The bound \<open>n\<close> is the value of \<open>len(...)\<close> when the
  loop is entered; \<open>i\<close> is the current value of the counter.
\<close>

fun find_in_list :: "nat \<Rightarrow> ref \<Rightarrow> ref list \<Rightarrow> nat \<Rightarrow> int \<Rightarrow> int run" where
  "find_in_list 0 obj list_container n i = ([], Running)"
| "find_in_list (Suc fuel) obj list_container n i =
     (if i < int n then
        (case list_getitem list_container i of
           Inl e \<Rightarrow> run_raise e
         | Inr x \<Rightarrow> gen_then (if py_is x obj then [i] else [])
                             (find_in_list fuel obj list_container n (cint_succ i)))
      else run_stop)"

fun find_in_tuple :: "nat \<Rightarrow> ref \<Rightarrow> ref list \<Rightarrow> nat \<Rightarrow> int \<Rightarrow> int run" where
  "find_in_tuple 0 obj tuple_container n i = ([], Running)"
| "find_in_tuple (Suc fuel) obj tuple_container n i =
     (if i < int n then
        (case tuple_getitem tuple_container i of
           Inl e \<Rightarrow> run_raise e
         | Inr x \<Rightarrow> gen_then (if py_is x obj then [i] else [])
                             (find_in_tuple fuel obj tuple_container n (cint_succ i)))
      else run_stop)"

fun find_in_container :: "nat \<Rightarrow> ref \<Rightarrow> container \<Rightarrow> nat \<Rightarrow> int \<Rightarrow> int run" where
  "find_in_container 0 obj container n i = ([], Running)"
| "find_in_container (Suc fuel) obj container n i =
     (if i < int n then
        (case py_getitem container i of
           Inl e \<Rightarrow> run_raise e
         | Inr x \<Rightarrow> gen_then (if py_is x obj then [i] else [])
                             (find_in_container fuel obj container n (cint_succ i)))
      else run_stop)"

definition list_branch :: "nat \<Rightarrow> ref \<Rightarrow> ref list \<Rightarrow> int run" where
  "list_branch fuel obj list_container =
     find_in_list fuel obj list_container (length list_container) 0"

definition tuple_branch :: "nat \<Rightarrow> ref \<Rightarrow> ref list \<Rightarrow> int run" where
  "tuple_branch fuel obj tuple_container =
     find_in_tuple fuel obj tuple_container (length tuple_container) 0"

definition else_branch :: "nat \<Rightarrow> ref \<Rightarrow> container \<Rightarrow> int run" where
  "else_branch fuel obj container =
     (case py_len container of
        Inl e \<Rightarrow> run_raise e
      | Inr n \<Rightarrow> find_in_container fuel obj container n 0)"

fun find_in_tuple_or_list :: "nat \<Rightarrow> ref \<Rightarrow> container \<Rightarrow> int run" where
  "find_in_tuple_or_list fuel obj (PyList xs) = list_branch fuel obj xs"
| "find_in_tuple_or_list fuel obj (PyTuple xs) = tuple_branch fuel obj xs"
| "find_in_tuple_or_list fuel obj (PyOther n g) = else_branch fuel obj (PyOther n g)"

section \<open>\<open>get_keys_dst\<close> and \<open>get_dict_keys_dst\<close>\<close>

text \<open>
  An edge is a pair of a label and the object referred to. The source builds labels of two
  kinds: the position that \<open>enumerate\<close> counts, and a string (\<open>repr(key)\<close> or the
  literal \<open>'<key>'\<close>).
\<close>

datatype label = Idx nat | Str string

type_synonym edge = "label \<times> ref"

text \<open>
  A \<open>dict\<close> is given by the two things the source does with it. \<open>for key in obj\<close>
  visits the keys of the stored entries in insertion order: \<open>dict_items\<close> lists the
  entries, key and value, in that order. \<open>obj[key]\<close> hashes the key anew and searches the
  table for a stored key that is the same object or has that hash and is equal; it returns
  the value found, raises \<open>KeyError\<close> when the search finds nothing, and raises whatever
  \<open>__hash__\<close> or \<open>__eq__\<close> of a key raise. \<open>dict_getitem\<close> is the outcome of that
  lookup for each key. The two agree for a dict whose keys have kept their hash and their
  equality since they were stored, and need not agree otherwise.
\<close>

record pydict =
  dict_items :: "(ref \<times> ref) list"
  dict_getitem :: "ref \<Rightarrow> py_error + ref"

definition dict_keys :: "pydict \<Rightarrow> ref list" where
  "dict_keys d = map fst (dict_items d)"

text \<open>\<open>gen_seq g1 g2\<close> runs \<open>g1\<close> and, unless an exception ended it, goes on as \<open>g2\<close>.\<close>

definition gen_seq :: "'a gen \<Rightarrow> 'a gen \<Rightarrow> 'a gen" where
  "gen_seq g1 g2 =
     (case snd g1 of Some e \<Rightarrow> g1 | None \<Rightarrow> (fst g1 @ fst g2, snd g2))"

text \<open>
  The inner loop \<open>for key in obj\<close> of \<open>get_dict_keys_dst\<close>, for one \<open>ref\<close>. The
  lookup \<open>obj[key]\<close> is evaluated in every round; \<open>repr(key)\<close> only when the value
  found is \<open>ref\<close>.
\<close>

fun keys_loop :: "heap \<Rightarrow> pydict \<Rightarrow> ref \<Rightarrow> ref list \<Rightarrow> edge gen" where
  "keys_loop h obj ref [] = gen_stop"
| "keys_loop h obj ref (key # keys) =
     gen_then (if py_is ref key then [(Str ''<key>'', ref)] else [])
       (case dict_getitem obj key of
          Inl e \<Rightarrow> gen_raise e
        | Inr v \<Rightarrow>
            (if py_is v ref then
               (case py_repr h key of
                  Inl e \<Rightarrow> gen_raise e
                | Inr s \<Rightarrow> gen_then [(Str s, ref)] (keys_loop h obj ref keys))
             else keys_loop h obj ref keys))"

text \<open>The outer loop \<open>for ref in referents\<close>.\<close>

fun referents_loop :: "heap \<Rightarrow> pydict \<Rightarrow> ref list \<Rightarrow> edge gen" where
  "referents_loop h obj [] = gen_stop"
| "referents_loop h obj (ref # referents) =
     gen_seq (keys_loop h obj ref (dict_keys obj)) (referents_loop h obj referents)"

definition get_dict_keys_dst :: "heap \<Rightarrow> pydict \<Rightarrow> ref list \<Rightarrow> edge gen" where
  "get_dict_keys_dst h obj referents = referents_loop h obj referents"

text \<open>
  The object given to \<open>get_keys_dst\<close>, by what the function inspects: its exact type
  (\<open>list\<close>, \<open>tuple\<close>, \<open>dict\<close> or anything else) and, for anything else, its
  \<open>__dict__\<close> when it has one.
\<close>

datatype pyobj =
    ListObj "ref list"
  | TupleObj "ref list"
  | DictObj pydict
  | OtherObj "pydict option"

text \<open>\<open>enumerate(obj)\<close>, counting from \<open>n\<close>.\<close>

fun py_enumerate :: "nat \<Rightarrow> ref list \<Rightarrow> edge list" where
  "py_enumerate n [] = []"
| "py_enumerate n (x # xs) = (Idx n, x) # py_enumerate (Suc n) xs"

text \<open>
  The last four lines of \<open>get_keys_dst\<close> build the local list \<open>results\<close>. Line 155 of
  the source, \<open>obj.__dict__.keys():\<close>, is read as the loop \<open>for key in
  obj.__dict__.keys():\<close> whose body is line 156. Each round appends the one-element tuple
  \<open>('<key>', )\<close>; a tuple is modelled as the list of its components.
\<close>

fun get_keys_dst_results :: "pydict option \<Rightarrow> label list list" where
  "get_keys_dst_results None = []"
| "get_keys_dst_results (Some d) = map (\<lambda>key. [Str ''<key>'']) (dict_keys d)"

text \<open>
  What \<open>get_keys_dst\<close> returns: an iterator of edges, or \<open>None\<close> when the end of the
  function body is reached without a \<open>return\<close>.
\<close>

datatype keys_dst = Returned "edge gen" | ReturnedNone

fun get_keys_dst :: "heap \<Rightarrow> pyobj \<Rightarrow> ref list \<Rightarrow> keys_dst" where
  "get_keys_dst h (ListObj xs) referents = Returned (py_enumerate 0 xs, None)"
| "get_keys_dst h (TupleObj xs) referents = Returned (py_enumerate 0 xs, None)"
| "get_keys_dst h (DictObj d) referents = Returned (get_dict_keys_dst h d referents)"
| "get_keys_dst h (OtherObj odict) referents =
     (let results = get_keys_dst_results odict in ReturnedNone)"

section \<open>Dicts whose lookups agree with their entries\<close>

text \<open>
  \<open>lookups_ok d\<close>: every stored key looks up to the value stored with it, that is
  \<open>d[k] is v\<close> for every entry \<open>(k, v)\<close>. \<open>lookups_return d\<close>: the lookup of every
  stored key returns some value. \<open>reprs_return h d\<close>: \<open>repr(k)\<close> returns for every
  stored key. \<open>repr_str h k\<close> is the string that \<open>repr(k)\<close> returns (the empty string
  where it raises).
\<close>

definition lookups_ok :: "pydict \<Rightarrow> bool" where
  "lookups_ok d = list_all (\<lambda>e. dict_getitem d (fst e) = Inr (snd e)) (dict_items d)"

definition lookups_return :: "pydict \<Rightarrow> bool" where
  "lookups_return d =
     list_all (\<lambda>k. case dict_getitem d k of Inl e \<Rightarrow> False | Inr v \<Rightarrow> True) (dict_keys d)"

definition reprs_return :: "heap \<Rightarrow> pydict \<Rightarrow> bool" where
  "reprs_return h d =
     list_all (\<lambda>k. case py_repr h k of Inl e \<Rightarrow> False | Inr s \<Rightarrow> True) (dict_keys d)"

definition repr_str :: "heap \<Rightarrow> ref \<Rightarrow> string" where
  "repr_str h k = (case py_repr h k of Inl e \<Rightarrow> [] | Inr s \<Rightarrow> s)"

text \<open>
  The edges that one round of the inner loop yields for the referent \<open>r\<close> at the entry
  \<open>e\<close>, when the lookup returns that entry's value and \<open>repr\<close> returns.
\<close>

abbreviation entry_edges :: "heap \<Rightarrow> ref \<Rightarrow> ref \<times> ref \<Rightarrow> edge list" where
  "entry_edges h r e \<equiv>
     (if py_is r (fst e) then [(Str ''<key>'', r)] else []) @
     (if py_is (snd e) r then [(Str (repr_str h (fst e)), r)] else [])"

section \<open>Example heaps and dicts\<close>

text \<open>
  A heap in which \<open>repr\<close> of the object \<open>n\<close> returns the letter \<open>k\<close> followed by
  \<open>n\<close> letters \<open>x\<close>.
\<close>

definition heap0 :: heap where
  "heap0 = \<lparr>py_repr = (\<lambda>r. Inr (CHR ''k'' # replicate r (CHR ''x'')))\<rparr>"

text \<open>A heap in which \<open>__repr__\<close> of every object raises.\<close>

definition heap_raising :: heap where
  "heap_raising = \<lparr>py_repr = (\<lambda>r. Inl UserError)\<rparr>"

text \<open>
  The dict built by storing the given entries under pairwise different keys that keep
  their hash and equality: a lookup finds the entry stored under that very object.
\<close>

definition dict_of :: "(ref \<times> ref) list \<Rightarrow> pydict" where
  "dict_of es =
     \<lparr>dict_items = es,
      dict_getitem = (\<lambda>key. case map_of es key of None \<Rightarrow> Inl KeyError | Some v \<Rightarrow> Inr v)\<rparr>"

text \<open>
  A dict with the entries \<open>(7, 1)\<close> and \<open>(8, 2)\<close>. The object \<open>8\<close> was stored while
  it differed from \<open>7\<close> and has since been changed so that it is equal to \<open>7\<close> and has
  the hash of \<open>7\<close>: the lookup of \<open>8\<close> now finds the entry of \<open>7\<close>.
\<close>

definition dict_equal_keys :: pydict where
  "dict_equal_keys =
     \<lparr>dict_items = [(7, 1), (8, 2)],
      dict_getitem = (\<lambda>key. if key = 7 \<or> key = 8 then Inr 1 else Inl KeyError)\<rparr>"

text \<open>
  A dict with the one entry \<open>(1, 2)\<close> whose key has changed its hash since it was
  stored: the lookup of the key searches in the wrong place and raises \<open>KeyError\<close>.
\<close>

definition dict_stale_hash :: pydict where
  "dict_stale_hash = \<lparr>dict_items = [(1, 2)], dict_getitem = (\<lambda>key. Inl KeyError)\<rparr>"

section \<open>Properties of \<open>find_in_tuple_or_list\<close>\<close>

lemma find_in_container_list:
  "find_in_container fuel obj (PyList xs) n i = find_in_list fuel obj xs n i"
  by (induction fuel arbitrary: i) (simp_all split: sum.splits)

lemma find_in_container_tuple:
  "find_in_container fuel obj (PyTuple xs) n i = find_in_tuple fuel obj xs n i"
  by (induction fuel arbitrary: i) (simp_all split: sum.splits)

lemma tuple_getitem_list: "tuple_getitem xs i = list_getitem xs i"
  by (simp add: tuple_getitem_def list_getitem_def)

lemma find_in_tuple_list:
  "find_in_tuple fuel obj xs n i = find_in_list fuel obj xs n i"
  by (induction fuel arbitrary: i) (simp_all add: tuple_getitem_list split: sum.splits)

lemma list_getitem_nat:
  "k < length xs \<Longrightarrow> list_getitem xs (int k) = Inr (xs ! k)"
  by (simp add: list_getitem_def)

lemma cint_succ_nat:
  "int k < INT_MAX \<Longrightarrow> cint_succ (int k) = int (Suc k)"
  by (simp add: cint_succ_def)

lemma find_in_list_bounded:
  "int (length xs) \<le> INT_MAX \<Longrightarrow> k \<le> length xs \<Longrightarrow> length xs - k < fuel \<Longrightarrow>
     find_in_list fuel obj xs (length xs) (int k) =
       (map int (filter (\<lambda>i. py_is (xs ! i) obj) [k..<length xs]), Ended None)"
proof (induction fuel arbitrary: k)
  case 0
  then show ?case by simp
next
  case (Suc fuel)
  show ?case
  proof (cases "k < length xs")
    case False
    with Suc.prems show ?thesis by (simp add: run_stop_def)
  next
    case True
    with Suc.prems have succ: "cint_succ (int k) = int (Suc k)"
      by (intro cint_succ_nat) simp
    from True Suc.prems have
      "find_in_list fuel obj xs (length xs) (int (Suc k)) =
         (map int (filter (\<lambda>i. py_is (xs ! i) obj) [Suc k..<length xs]), Ended None)"
      by (intro Suc.IH) simp_all
    with True succ show ?thesis
      by (simp add: list_getitem_nat gen_then_def upt_conv_Cons)
  qed
qed

lemma list_branch_bounded:
  "int (length xs) \<le> INT_MAX \<Longrightarrow> length xs < fuel \<Longrightarrow>
     list_branch fuel obj xs =
       (map int (filter (\<lambda>i. py_is (xs ! i) obj) [0..<length xs]), Ended None)"
  unfolding list_branch_def using find_in_list_bounded [of xs 0 fuel obj] by simp

lemma tuple_branch_bounded:
  "int (length xs) \<le> INT_MAX \<Longrightarrow> length xs < fuel \<Longrightarrow>
     tuple_branch fuel obj xs =
       (map int (filter (\<lambda>i. py_is (xs ! i) obj) [0..<length xs]), Ended None)"
  unfolding tuple_branch_def find_in_tuple_list
  using find_in_list_bounded [of xs 0 fuel obj] by simp

text \<open>A list of more than \<open>INT_MAX\<close> items: the counter never reaches the bound.\<close>

lemma list_getitem_wrapped:
  "INT_MAX < int (length xs) \<Longrightarrow> INT_MIN \<le> i \<Longrightarrow> i \<le> INT_MAX \<Longrightarrow>
     \<exists>x \<in> set xs. list_getitem xs i = Inr x"
  by (auto simp: list_getitem_def INT_MAX_def INT_MIN_def Let_def)

lemma cint_succ_range:
  "INT_MIN \<le> i \<Longrightarrow> i \<le> INT_MAX \<Longrightarrow> INT_MIN \<le> cint_succ i \<and> cint_succ i \<le> INT_MAX"
  by (simp add: cint_succ_def INT_MAX_def INT_MIN_def)

lemma find_in_list_running:
  "INT_MAX < int (length xs) \<Longrightarrow> INT_MIN \<le> i \<Longrightarrow> i \<le> INT_MAX \<Longrightarrow>
     snd (find_in_list fuel obj xs (length xs) i) = Running"
proof (induction fuel arbitrary: i)
  case 0
  then show ?case by simp
next
  case (Suc fuel)
  from Suc.prems obtain x where "list_getitem xs i = Inr x"
    using list_getitem_wrapped [of xs i] by blast
  moreover have "snd (find_in_list fuel obj xs (length xs) (cint_succ i)) = Running"
    using Suc.prems cint_succ_range [of i] by (intro Suc.IH) simp_all
  ultimately show ?case using Suc.prems by (simp add: gen_then_def)
qed

lemma find_in_list_wraps:
  "INT_MAX < int (length xs) \<Longrightarrow> \<forall>x \<in> set xs. x = obj \<Longrightarrow>
   INT_MIN \<le> i \<Longrightarrow> i \<le> INT_MAX \<Longrightarrow> nat (INT_MAX - i) + 1 < fuel \<Longrightarrow>
     INT_MIN \<in> set (fst (find_in_list fuel obj xs (length xs) i))"
proof (induction fuel arbitrary: i)
  case 0
  then show ?case by simp
next
  case (Suc fuel)
  from Suc.prems obtain x where x: "list_getitem xs i = Inr x" "x = obj"
    using list_getitem_wrapped [of xs i] by blast
  show ?case
  proof (cases "i = INT_MAX")
    case True
    from Suc.prems True obtain fuel' where fuel: "fuel = Suc fuel'"
      by (cases fuel) simp_all
    from Suc.prems(1) obtain y where "list_getitem xs INT_MIN = Inr y" "y = obj"
      using Suc.prems(2) list_getitem_wrapped [of xs INT_MIN]
      by (auto simp: INT_MIN_def INT_MAX_def)
    with x True fuel Suc.prems(1) show ?thesis
      by (simp add: gen_then_def cint_succ_def py_is_def INT_MIN_def INT_MAX_def)
  next
    case False
    with Suc.prems have "INT_MIN \<in> set (fst (find_in_list fuel obj xs (length xs) (i + 1)))"
      by (intro Suc.IH) (simp_all add: INT_MIN_def INT_MAX_def)
    with x False Suc.prems show ?thesis
      by (simp add: gen_then_def cint_succ_def)
  qed
qed

section \<open>Properties of the two loops of \<open>get_dict_keys_dst\<close>\<close>

lemma lookups_returnD:
  assumes "lookups_return d" and "k \<in> set (dict_keys d)"
  shows "\<exists>v. dict_getitem d k = Inr v"
proof (cases "dict_getitem d k")
  case (Inl e)
  with assms show ?thesis by (auto simp: lookups_return_def list_all_iff)
next
  case (Inr v)
  then show ?thesis by simp
qed

lemma reprs_returnD:
  assumes "reprs_return h d" and "k \<in> set (dict_keys d)"
  shows "py_repr h k = Inr (repr_str h k)"
proof (cases "py_repr h k")
  case (Inl e)
  with assms show ?thesis by (auto simp: reprs_return_def list_all_iff)
next
  case (Inr s)
  then show ?thesis by (simp add: repr_str_def)
qed

lemma keys_loop_no_error:
  "lookups_return d \<Longrightarrow> reprs_return h d \<Longrightarrow> set keys \<subseteq> set (dict_keys d) \<Longrightarrow>
     snd (keys_loop h d r keys) = None"
proof (induction keys)
  case Nil
  then show ?case by (simp add: gen_stop_def)
next
  case (Cons key keys)
  from Cons.prems obtain v where "dict_getitem d key = Inr v"
    using lookups_returnD [of d key] by auto
  moreover from Cons.prems have "py_repr h key = Inr (repr_str h key)"
    using reprs_returnD [of h d key] by auto
  ultimately show ?case using Cons by (simp add: gen_then_def)
qed

lemma referents_loop_no_error:
  "lookups_return d \<Longrightarrow> reprs_return h d \<Longrightarrow> snd (referents_loop h d referents) = None"
  by (induction referents) (simp_all add: gen_stop_def gen_seq_def keys_loop_no_error)

lemma keys_loop_lookup:
  "lookups_return d \<Longrightarrow> reprs_return h d \<Longrightarrow> set keys \<subseteq> set (dict_keys d) \<Longrightarrow>
     keys_loop h d r keys =
       (concat (map (\<lambda>k. (if py_is r k then [(Str ''<key>'', r)] else []) @
                          (if dict_getitem d k = Inr r then [(Str (repr_str h k), r)] else []))
                keys), None)"
proof (induction keys)
  case Nil
  then show ?case by (simp add: gen_stop_def)
next
  case (Cons key keys)
  from Cons.prems obtain v where "dict_getitem d key = Inr v"
    using lookups_returnD [of d key] by auto
  moreover from Cons.prems have "py_repr h key = Inr (repr_str h key)"
    using reprs_returnD [of h d key] by auto
  ultimately show ?case using Cons by (auto simp: gen_then_def py_is_def)
qed

lemma referents_loop_lookup:
  "lookups_return d \<Longrightarrow> reprs_return h d \<Longrightarrow>
     referents_loop h d referents =
       (concat (map (\<lambda>r. concat (map (\<lambda>k.
           (if py_is r k then [(Str ''<key>'', r)] else []) @
           (if dict_getitem d k = Inr r then [(Str (repr_str h k), r)] else []))
         (dict_keys d))) referents), None)"
  by (induction referents) (simp_all add: gen_stop_def gen_seq_def keys_loop_lookup)

lemma keys_loop_ok:
  "lookups_ok d \<Longrightarrow> reprs_return h d \<Longrightarrow> set es \<subseteq> set (dict_items d) \<Longrightarrow>
     keys_loop h d r (map fst es) = (concat (map (entry_edges h r) es), None)"
proof (induction es)
  case Nil
  then show ?case by (simp add: gen_stop_def)
next
  case (Cons e es)
  from Cons.prems have "dict_getitem d (fst e) = Inr (snd e)"
    by (auto simp: lookups_ok_def list_all_iff)
  moreover from Cons.prems have "py_repr h (fst e) = Inr (repr_str h (fst e))"
    using reprs_returnD [of h d "fst e"] by (auto simp: dict_keys_def)
  ultimately show ?case using Cons by (simp add: gen_then_def)
qed

lemma referents_loop_ok:
  "lookups_ok d \<Longrightarrow> reprs_return h d \<Longrightarrow>
     referents_loop h d referents =
       (concat (map (\<lambda>r. concat (map (entry_edges h r) (dict_items d))) referents), None)"
  by (induction referents)
     (simp_all add: gen_stop_def gen_seq_def dict_keys_def keys_loop_ok)

lemma get_dict_keys_dst_ok:
  "lookups_ok d \<Longrightarrow> reprs_return h d \<Longrightarrow>
     get_dict_keys_dst h d referents =
       (concat (map (\<lambda>r. concat (map (entry_edges h r) (dict_items d))) referents), None)"
  by (simp add: get_dict_keys_dst_def referents_loop_ok)

lemma get_dict_keys_dst_set:
  "lookups_ok d \<Longrightarrow> reprs_return h d \<Longrightarrow>
     set (fst (get_dict_keys_dst h d referents)) =
       {(Str ''<key>'', k) | k. k \<in> set (dict_keys d) \<and> k \<in> set referents} \<union>
       {(Str (repr_str h k), v) | k v. (k, v) \<in> set (dict_items d) \<and> v \<in> set referents}"
  by (force simp: get_dict_keys_dst_ok dict_keys_def py_is_def split: if_splits)

lemma py_enumerate_eq:
  "py_enumerate n xs = map (\<lambda>i. (Idx (n + i), xs ! i)) [0..<length xs]"
proof (induction xs arbitrary: n)
  case Nil
  then show ?case by simp
next
  case (Cons x xs)
  have "[0..<length (x # xs)] = 0 # map Suc [0..<length xs]"
    by (simp add: upt_conv_Cons map_Suc_upt del: upt_Suc)
  then show ?case by (simp add: Cons.IH comp_def del: upt_Suc)
qed

lemma entry_edges_value_count:
  "\<forall>k \<in> set (map fst es). repr_str h k \<noteq> ''<key>'' \<Longrightarrow>
     length (filter (\<lambda>e. snd e = x \<and> fst e \<noteq> Str ''<key>'')
               (concat (map (entry_edges h r) es))) =
       (if r = x then length (filter (\<lambda>e. snd e = x) es) else 0)"
  by (induction es) (auto simp: py_is_def)

lemma entry_edges_dst_count:
  "length (filter (\<lambda>e. snd e = x) (concat (map (entry_edges h r) es))) =
     (if r = x then length (filter (\<lambda>e. snd e = x) es) + length (filter (\<lambda>e. fst e = x) es)
      else 0)"
  by (induction es) (auto simp: py_is_def)

lemma referents_value_count:
  "\<forall>k \<in> set (map fst es). repr_str h k \<noteq> ''<key>'' \<Longrightarrow>
     length (filter (\<lambda>e. snd e = x \<and> fst e \<noteq> Str ''<key>'')
               (concat (map (\<lambda>r. concat (map (entry_edges h r) es)) referents))) =
       count_list referents x * length (filter (\<lambda>e. snd e = x) es)"
  by (induction referents) (simp_all add: entry_edges_value_count)

lemma referents_dst_count:
  "length (filter (\<lambda>e. snd e = x)
             (concat (map (\<lambda>r. concat (map (entry_edges h r) es)) referents))) =
     count_list referents x *
       (length (filter (\<lambda>e. snd e = x) es) + length (filter (\<lambda>e. fst e = x) es))"
  by (induction referents) (simp_all add: entry_edges_dst_count)

lemma entry_edges_mset:
  "mset (concat (map (\<lambda>r. concat (map (entry_edges h r) es)) referents)) =
     (\<Sum>e\<leftarrow>es. replicate_mset (count_list referents (fst e)) (Str ''<key>'', fst e) +
              replicate_mset (count_list referents (snd e)) (Str (repr_str h (fst e)), snd e))"
proof (induction referents)
  case Nil
  then show ?case by simp
next
  case (Cons r referents)
  have "mset (concat (map (entry_edges h r) es)) +
        (\<Sum>e\<leftarrow>es. replicate_mset (count_list referents (fst e)) (Str ''<key>'', fst e) +
              replicate_mset (count_list referents (snd e)) (Str (repr_str h (fst e)), snd e)) =
        (\<Sum>e\<leftarrow>es. replicate_mset (count_list (r # referents) (fst e)) (Str ''<key>'', fst e) +
              replicate_mset (count_list (r # referents) (snd e))
                (Str (repr_str h (fst e)), snd e))"
    by (induction es) (auto simp: py_is_def)
  with Cons show ?case by simp
qed

lemma sum_list_singletons:
  "\<forall>e \<in> set es. f e = {#a e#} + {#b e#} \<Longrightarrow>
     (\<Sum>e\<leftarrow>es. f e) = mset (map a es) + mset (map b es)"
  by (induction es) simp_all

text \<open>The example heap and dicts.\<close>

lemma heap0_repr: "py_repr heap0 r = Inr (CHR ''k'' # replicate r (CHR ''x''))"
  by (simp add: heap0_def)

lemma repr_str_heap0: "repr_str heap0 r = CHR ''k'' # replicate r (CHR ''x'')"
  by (simp add: repr_str_def heap0_def)

lemma reprs_return_heap0: "reprs_return heap0 d"
  by (simp add: reprs_return_def heap0_def list_all_iff)

lemma dict_of_simps:
  "dict_items (dict_of es) = es"
  "dict_keys (dict_of es) = map fst es"
  "dict_getitem (dict_of es) key =
     (case map_of es key of None \<Rightarrow> Inl KeyError | Some v \<Rightarrow> Inr v)"
  by (simp_all add: dict_of_def dict_keys_def)

lemma lookups_ok_dict_of: "distinct (map fst es) \<Longrightarrow> lookups_ok (dict_of es)"
  by (auto simp: lookups_ok_def dict_of_simps list_all_iff)

lemma find_in_list_no_raise:
  "(int (length xs) \<le> INT_MAX \<and> 0 \<le> i \<and> i \<le> int (length xs)) \<or>
   (INT_MAX < int (length xs) \<and> INT_MIN \<le> i \<and> i \<le> INT_MAX) \<Longrightarrow>
     snd (find_in_list fuel obj xs (length xs) i) \<noteq> Ended (Some e)"
proof (induction fuel arbitrary: i)
  case 0
  then show ?case by simp
next
  case (Suc fuel)
  show ?case
  proof (cases "i < int (length xs)")
    case False
    then show ?thesis by (simp add: run_stop_def)
  next
    case True
    with Suc.prems obtain x where x: "list_getitem xs i = Inr x"
      using list_getitem_wrapped [of xs i] list_getitem_nat [of "nat i" xs] by auto
    have "snd (find_in_list fuel obj xs (length xs) (cint_succ i)) \<noteq> Ended (Some e)"
      using Suc.prems True cint_succ_range [of i]
      by (intro Suc.IH) (auto simp: cint_succ_def)
    with True x show ?thesis by (simp add: gen_then_def)
  qed
qed

lemma list_branch_no_raise: "snd (list_branch fuel obj xs) \<noteq> Ended (Some e)"
  unfolding list_branch_def
  by (rule find_in_list_no_raise) (auto simp: INT_MIN_def INT_MAX_def)

lemma tuple_branch_no_raise: "snd (tuple_branch fuel obj xs) \<noteq> Ended (Some e)"
  unfolding tuple_branch_def find_in_tuple_list
  by (rule find_in_list_no_raise) (auto simp: INT_MIN_def INT_MAX_def)

section \<open>The claims\<close>

text \<open>
  Claim C1, as amended. On a dict \<open>D\<close> the lookup of every stored key returns and
  \<open>repr\<close> returns for every key. \<open>D\<close> has an entry whose key \<open>K\<close> is a tracked
  object stored with the value \<open>V\<close>, the lookup \<open>D[K]\<close> returns \<open>V\<close>, and both
  \<open>K\<close> and \<open>V\<close> are in the referents list. Then the output of
  \<open>get_dict_keys_dst\<close> contains the pair \<open>('<key>', K)\<close> and the pair
  \<open>(repr(K), V)\<close>.
\<close>

theorem dict_object_key_edges:
  assumes "lookups_return D" and "reprs_return h D"
    and "(K, V) \<in> set (dict_items D)" and "dict_getitem D K = Inr V"
    and "K \<in> set referents" and "V \<in> set referents"
  shows "(Str ''<key>'', K) \<in> set (fst (get_dict_keys_dst h D referents)) \<and>
         (Str (repr_str h K), V) \<in> set (fst (get_dict_keys_dst h D referents))"
proof -
  from assms(3) have "K \<in> set (dict_keys D)" by (force simp: dict_keys_def)
  with assms show ?thesis
    by (force simp: get_dict_keys_dst_def referents_loop_lookup py_is_def)
qed

theorem dict_object_key_edges_witness:
  "lookups_return dict_equal_keys \<and> reprs_return heap0 dict_equal_keys \<and>
   (7, 1) \<in> set (dict_items dict_equal_keys) \<and> dict_getitem dict_equal_keys 7 = Inr 1 \<and>
   (7::nat) \<in> set [7, 1] \<and> (1::nat) \<in> set [7, 1] \<and>
   (Str ''<key>'', 7) \<in> set (fst (get_dict_keys_dst heap0 dict_equal_keys [7, 1])) \<and>
   (Str (repr_str heap0 7), 1) \<in> set (fst (get_dict_keys_dst heap0 dict_equal_keys [7, 1]))"
  using dict_object_key_edges [of dict_equal_keys heap0 7 1 "[7, 1]"]
  by (simp add: lookups_return_def reprs_return_heap0 dict_equal_keys_def dict_keys_def)

text \<open>
  The dict whose key \<open>8\<close> has become equal to its key \<open>7\<close> holds the entry
  \<open>(8, 2)\<close>, and \<open>8\<close> and \<open>2\<close> are both referents, but the lookup of \<open>8\<close> returns
  \<open>1\<close>: the only edge emitted is \<open>('<key>', 8)\<close>, and \<open>(repr(8), 2)\<close> is missing.
\<close>

theorem dict_object_key_edges_counterexample:
  "(8, 2) \<in> set (dict_items dict_equal_keys) \<and> (8::nat) \<in> set [8, 2] \<and> (2::nat) \<in> set [8, 2] \<and>
   dict_getitem dict_equal_keys 8 = Inr 1 \<and>
   get_dict_keys_dst heap0 dict_equal_keys [8, 2] = ([(Str ''<key>'', 8)], None) \<and>
   (Str (repr_str heap0 8), 2) \<notin> set (fst (get_dict_keys_dst heap0 dict_equal_keys [8, 2]))"
  by (simp add: get_dict_keys_dst_def gen_seq_def gen_then_def gen_stop_def dict_keys_def
      dict_equal_keys_def py_is_def heap0_repr)

text \<open>
  Claim C2, as amended. No bound on the length of \<open>repr(key)\<close> is applied. For a dict
  in which every stored key looks up to the value stored with it, and \<open>repr\<close> returns
  for every key, the edges emitted are exactly these: \<open>('<key>', k)\<close> for every key
  \<open>k\<close> that is in the referents list, and \<open>(repr(k), v)\<close>, with the textual
  representation of the key in full whatever its length, for every entry \<open>(k, v)\<close>
  whose value is in the referents list.
\<close>

theorem dict_edge_labels:
  assumes "lookups_ok d" and "reprs_return h d"
  shows "(l, dst) \<in> set (fst (get_dict_keys_dst h d referents)) \<longleftrightarrow>
           dst \<in> set referents \<and>
           (l = Str ''<key>'' \<and> dst \<in> set (dict_keys d) \<or>
            (\<exists>k. (k, dst) \<in> set (dict_items d) \<and> l = Str (repr_str h k)))"
  using assms by (auto simp: get_dict_keys_dst_set)

theorem dict_edge_labels_witness:
  "lookups_ok (dict_of [(65, 2)]) \<and> reprs_return heap0 (dict_of [(65, 2)]) \<and>
   64 < length (repr_str heap0 65) \<and>
   (Str (repr_str heap0 65), 2) \<in> set (fst (get_dict_keys_dst heap0 (dict_of [(65, 2)]) [2])) \<and>
   (Str ''<key>'', 2) \<notin> set (fst (get_dict_keys_dst heap0 (dict_of [(65, 2)]) [2])) \<and>
   (Str ''<key>'', 65) \<notin> set (fst (get_dict_keys_dst heap0 (dict_of [(65, 2)]) [2]))"
  using dict_edge_labels [of "dict_of [(65, 2)]" heap0 _ _ "[2]"]
  by (simp add: lookups_ok_dict_of reprs_return_heap0 dict_of_simps repr_str_heap0)

text \<open>
  \<open>repr\<close> of the key \<open>65\<close> has 66 characters, and the value edge of its entry carries
  all of them as its label, not \<open>'<key>'\<close>.
\<close>

theorem long_key_label_counterexample:
  "64 < length (repr_str heap0 65) \<and>
   get_dict_keys_dst heap0 (dict_of [(65, 2)]) [2] = ([(Str (repr_str heap0 65), 2)], None) \<and>
   Str (repr_str heap0 65) \<noteq> Str ''<key>''"
  by (simp add: get_dict_keys_dst_def gen_seq_def gen_then_def gen_stop_def dict_of_simps
      py_is_def heap0_repr repr_str_heap0)

text \<open>
  Claim C3. For a list or a tuple \<open>c\<close> and any referents list \<open>r\<close>,
  \<open>get_keys_dst(c, r)\<close> yields exactly the pairs \<open>(i, c[i])\<close> for the positions
  \<open>i\<close> from \<open>0\<close> to \<open>len(c) - 1\<close>, in increasing order, whatever \<open>r\<close> holds.
\<close>

theorem get_keys_dst_sequence:
  "get_keys_dst h (ListObj c) r =
     Returned (map (\<lambda>i. (Idx i, c ! i)) [0..<length c], None) \<and>
   get_keys_dst h (TupleObj c) r =
     Returned (map (\<lambda>i. (Idx i, c ! i)) [0..<length c], None)"
  by (simp add: py_enumerate_eq)

text \<open>
  Claim C4, as amended. In a dict \<open>d\<close> every stored key looks up to the value stored
  with it, \<open>repr\<close> returns for every key, and every key and every value of \<open>d\<close>
  occurs exactly once in the referents list. Then \<open>get_dict_keys_dst\<close> emits exactly one
  pair \<open>(repr(key), value)\<close> for each entry of \<open>d\<close>: as a multiset, the output is one
  value edge per entry together with one \<open>'<key>'\<close> edge per entry, and nothing else.
\<close>

theorem dict_one_value_edge_per_entry:
  assumes "lookups_ok d" and "reprs_return h d"
    and "\<forall>(k, v) \<in> set (dict_items d).
           count_list referents k = 1 \<and> count_list referents v = 1"
  shows "mset (fst (get_dict_keys_dst h d referents)) =
           mset (map (\<lambda>(k, v). (Str (repr_str h k), v)) (dict_items d)) +
           mset (map (\<lambda>(k, v). (Str ''<key>'', k)) (dict_items d))"
proof -
  have "mset (fst (get_dict_keys_dst h d referents)) =
     (\<Sum>e\<leftarrow>dict_items d.
        replicate_mset (count_list referents (fst e)) (Str ''<key>'', fst e) +
        replicate_mset (count_list referents (snd e)) (Str (repr_str h (fst e)), snd e))"
    using assms(1,2) by (simp add: get_dict_keys_dst_ok entry_edges_mset)
  also have "\<dots> = mset (map (\<lambda>e. (Str ''<key>'', fst e)) (dict_items d)) +
                  mset (map (\<lambda>e. (Str (repr_str h (fst e)), snd e)) (dict_items d))"
    by (rule sum_list_singletons) (use assms(3) in auto)
  finally show ?thesis by (simp add: split_def add.commute)
qed

theorem dict_one_value_edge_per_entry_witness:
  "lookups_ok (dict_of [(1, 2), (3, 2)]) \<and> reprs_return heap0 (dict_of [(1, 2), (3, 2)]) \<and>
   count_list [3, 2, 1] (1::nat) = 1 \<and> count_list [3, 2, 1] (2::nat) = 1 \<and>
   count_list [3, 2, 1] (3::nat) = 1 \<and>
   mset (fst (get_dict_keys_dst heap0 (dict_of [(1, 2), (3, 2)]) [3, 2, 1])) =
     mset [(Str (repr_str heap0 1), 2), (Str (repr_str heap0 3), 2)] +
     mset [(Str ''<key>'', 1), (Str ''<key>'', 3)]"
  using dict_one_value_edge_per_entry [of "dict_of [(1, 2), (3, 2)]" heap0 "[3, 2, 1]"]
  by (simp add: lookups_ok_dict_of reprs_return_heap0 dict_of_simps)

text \<open>
  In the dict whose key \<open>8\<close> has become equal to its key \<open>7\<close>, every key and every
  value occurs once in the referents list, yet the entry \<open>(8, 2)\<close> gets no value edge
  and the value \<open>1\<close> of the entry \<open>(7, 1)\<close> gets two.
\<close>

theorem dict_one_value_edge_per_entry_counterexample:
  "dict_items dict_equal_keys = [(7, 1), (8, 2)] \<and>
   count_list [7, 1, 8, 2] (7::nat) = 1 \<and> count_list [7, 1, 8, 2] (1::nat) = 1 \<and>
   count_list [7, 1, 8, 2] (8::nat) = 1 \<and> count_list [7, 1, 8, 2] (2::nat) = 1 \<and>
   get_dict_keys_dst heap0 dict_equal_keys [7, 1, 8, 2] =
     ([(Str ''<key>'', 7), (Str (repr_str heap0 7), 1), (Str (repr_str heap0 8), 1),
       (Str ''<key>'', 8)], None)"
  by (simp add: get_dict_keys_dst_def gen_seq_def gen_then_def gen_stop_def dict_keys_def
      dict_equal_keys_def py_is_def heap0_repr repr_str_heap0)

text \<open>
  Claim C5, as amended. For a dict in which every stored key looks up to the value stored
  with it, and \<open>repr\<close> returns for every key, the edges are emitted referent by
  referent, in the order of the referents list, and the edges of one referent follow the
  insertion order of the dict. Where one entry gives two edges to the same referent,
  because that referent is both its key and its value, the \<open>'<key>'\<close> edge comes before
  the value edge.
\<close>

theorem dict_edge_order:
  assumes "lookups_ok d" and "reprs_return h d"
  shows "fst (get_dict_keys_dst h d referents) =
           concat (map (\<lambda>r. concat (map (\<lambda>(k, v).
             (if py_is r k then [(Str ''<key>'', r)] else []) @
             (if py_is v r then [(Str (repr_str h k), r)] else [])) (dict_items d))) referents)"
  using assms by (simp add: get_dict_keys_dst_ok split_def)

theorem dict_edge_order_witness:
  "lookups_ok (dict_of [(1, 2), (3, 3)]) \<and> reprs_return heap0 (dict_of [(1, 2), (3, 3)]) \<and>
   fst (get_dict_keys_dst heap0 (dict_of [(1, 2), (3, 3)]) [3, 1, 2]) =
     [(Str ''<key>'', 3), (Str (repr_str heap0 3), 3), (Str ''<key>'', 1),
      (Str (repr_str heap0 1), 2)]"
  using dict_edge_order [of "dict_of [(1, 2), (3, 3)]" heap0 "[3, 1, 2]"]
  by (simp add: lookups_ok_dict_of reprs_return_heap0 dict_of_simps py_is_def)

text \<open>
  With the referents in the order \<open>[4, 2]\<close> the edge of the second entry of the dict is
  emitted before the edge of its first entry; with \<open>[2, 4]\<close> it is the other way round.
\<close>

theorem dict_edge_order_counterexample:
  "fst (get_dict_keys_dst heap0 (dict_of [(1, 2), (3, 4)]) [4, 2]) =
     [(Str (repr_str heap0 3), 4), (Str (repr_str heap0 1), 2)] \<and>
   fst (get_dict_keys_dst heap0 (dict_of [(1, 2), (3, 4)]) [2, 4]) =
     [(Str (repr_str heap0 1), 2), (Str (repr_str heap0 3), 4)]"
  by (simp add: get_dict_keys_dst_def gen_seq_def gen_then_def gen_stop_def dict_of_simps
      py_is_def heap0_repr repr_str_heap0)

text \<open>
  Claim C6. For an object that is not a list, a tuple or a dict and has a \<open>__dict__\<close>,
  \<open>get_keys_dst\<close> should return the edges to the entries of the \<open>__dict__\<close>, each
  labelled with its attribute name. The code returns \<open>None\<close>: for an instance whose
  \<open>__dict__\<close> has the one entry \<open>(1, 2)\<close>, the end of the function is reached without a
  \<open>return\<close>, and the local list \<open>results\<close> holds the one-element tuple
  \<open>('<key>', )\<close>, with no destination and no attribute name.
\<close>

theorem get_keys_dst_instance:
  "get_keys_dst heap0 (OtherObj (Some (dict_of [(1, 2)]))) [1, 2] = ReturnedNone \<and>
   get_keys_dst_results (Some (dict_of [(1, 2)])) = [[Str ''<key>'']]"
  by (simp add: dict_of_simps)

text \<open>
  Claim C7, as amended. On a list or a tuple every index that
  \<open>find_in_tuple_or_list\<close> reads is within bounds, so no exception ends the generator,
  however long it is observed; when the container has at most \<open>INT_MAX\<close> items the
  generator ends normally. \<open>get_dict_keys_dst\<close> ends without an exception on a dict
  for which the lookup of every stored key returns and \<open>repr\<close> returns for every key.
\<close>

theorem shape_helpers_total:
  assumes "lookups_return d" and "reprs_return h d"
  shows "snd (find_in_tuple_or_list fuel obj (PyList xs)) \<noteq> Ended (Some e) \<and>
         snd (find_in_tuple_or_list fuel obj (PyTuple xs)) \<noteq> Ended (Some e) \<and>
         (int (length xs) \<le> INT_MAX \<and> length xs < fuel \<longrightarrow>
            snd (find_in_tuple_or_list fuel obj (PyList xs)) = Ended None \<and>
            snd (find_in_tuple_or_list fuel obj (PyTuple xs)) = Ended None) \<and>
         snd (get_dict_keys_dst h d referents) = None"
  using assms
  by (simp add: list_branch_no_raise tuple_branch_no_raise list_branch_bounded
      tuple_branch_bounded get_dict_keys_dst_def referents_loop_no_error)

theorem shape_helpers_total_witness:
  "lookups_return (dict_of [(1, 2)]) \<and> reprs_return heap0 (dict_of [(1, 2)]) \<and>
   int (length [8, 7, 7::nat]) \<le> INT_MAX \<and> length [8, 7, 7::nat] < 4 \<and>
   snd (find_in_tuple_or_list 4 7 (PyList [8, 7, 7])) = Ended None \<and>
   snd (find_in_tuple_or_list 4 7 (PyTuple [8, 7, 7])) = Ended None \<and>
   snd (get_dict_keys_dst heap0 (dict_of [(1, 2)]) [1, 2]) = None"
  using shape_helpers_total [of "dict_of [(1, 2)]" heap0 4 7 "[8, 7, 7]" _ "[1, 2]"]
  by (simp add: lookups_return_def reprs_return_heap0 dict_of_simps INT_MAX_def)

text \<open>
  The key \<open>1\<close> of the first dict has changed its hash since it was stored. The first
  round yields \<open>('<key>', 1)\<close>; then the lookup \<open>obj[key]\<close> raises \<open>KeyError\<close>,
  which ends the generator. The second dict is in order, but \<open>__repr__\<close> of its key
  raises, which ends the generator when the value edge is built.
\<close>

theorem shape_helpers_total_counterexample:
  "dict_items dict_stale_hash = [(1, 2)] \<and>
   get_dict_keys_dst heap0 dict_stale_hash [1, 2] = ([(Str ''<key>'', 1)], Some KeyError) \<and>
   lookups_ok (dict_of [(1, 2)]) \<and>
   get_dict_keys_dst heap_raising (dict_of [(1, 2)]) [1, 2] =
     ([(Str ''<key>'', 1)], Some UserError)"
  by (simp add: get_dict_keys_dst_def gen_seq_def gen_then_def gen_stop_def gen_raise_def
      dict_keys_def dict_stale_hash_def py_is_def lookups_ok_dict_of dict_of_simps
      heap_raising_def)

text \<open>
  Claim C8. On the items of a list or of a tuple, the list branch, the tuple branch and
  the general branch of \<open>find_in_tuple_or_list\<close> yield the same sequence of indices.
\<close>

theorem branches_equivalent:
  "list_branch fuel obj xs = else_branch fuel obj (PyList xs) \<and>
   tuple_branch fuel obj xs = else_branch fuel obj (PyTuple xs) \<and>
   list_branch fuel obj xs = tuple_branch fuel obj xs"
  by (simp add: list_branch_def tuple_branch_def else_branch_def find_in_container_list
      find_in_container_tuple find_in_tuple_list)

text \<open>
  Claim C9, as amended. For a list or a tuple of at most \<open>INT_MAX\<close> items, that is
  \<open>2 ^ 31 - 1\<close>, \<open>find_in_tuple_or_list\<close> yields the index \<open>i\<close> exactly when
  \<open>container[i]\<close> is the object \<open>obj\<close> itself; equality of objects plays no part. The
  indices come in strictly increasing order, so each is yielded once, and the generator
  ends.
\<close>

theorem find_in_tuple_or_list_identity:
  assumes "c = PyList xs \<or> c = PyTuple xs"
    and "int (length xs) \<le> INT_MAX" and "length xs < fuel"
  shows "(\<forall>i. i \<in> set (fst (find_in_tuple_or_list fuel obj c)) \<longleftrightarrow>
                0 \<le> i \<and> i < int (length xs) \<and> py_is (xs ! nat i) obj) \<and>
         sorted_wrt (<) (fst (find_in_tuple_or_list fuel obj c)) \<and>
         distinct (fst (find_in_tuple_or_list fuel obj c)) \<and>
         snd (find_in_tuple_or_list fuel obj c) = Ended None"
proof -
  let ?ys = "filter (\<lambda>i. py_is (xs ! i) obj) [0..<length xs]"
  from assms have r: "find_in_tuple_or_list fuel obj c = (map int ?ys, Ended None)"
    by (auto simp: list_branch_bounded tuple_branch_bounded)
  have "i \<in> set (map int ?ys) \<longleftrightarrow> 0 \<le> i \<and> i < int (length xs) \<and> py_is (xs ! nat i) obj"
    for i
  proof
    assume "i \<in> set (map int ?ys)"
    then show "0 \<le> i \<and> i < int (length xs) \<and> py_is (xs ! nat i) obj" by auto
  next
    assume "0 \<le> i \<and> i < int (length xs) \<and> py_is (xs ! nat i) obj"
    then have "nat i \<in> set ?ys" and "i = int (nat i)" by auto
    then show "i \<in> set (map int ?ys)" by (metis image_eqI set_map)
  qed
  moreover have "sorted_wrt (<) (map int ?ys)"
    by (simp add: sorted_wrt_map sorted_wrt_filter)
  moreover have "distinct (map int ?ys)"
    by (simp add: distinct_map)
  ultimately show ?thesis using r by simp
qed

theorem find_in_tuple_or_list_identity_witness:
  "int (length [8, 7, 7::nat]) \<le> INT_MAX \<and> length [8, 7, 7::nat] < 4 \<and>
   0 \<notin> set (fst (find_in_tuple_or_list 4 7 (PyList [8, 7, 7]))) \<and>
   1 \<in> set (fst (find_in_tuple_or_list 4 7 (PyList [8, 7, 7]))) \<and>
   2 \<in> set (fst (find_in_tuple_or_list 4 7 (PyList [8, 7, 7]))) \<and>
   distinct (fst (find_in_tuple_or_list 4 7 (PyList [8, 7, 7]))) \<and>
   snd (find_in_tuple_or_list 4 7 (PyList [8, 7, 7])) = Ended None"
  using find_in_tuple_or_list_identity [of "PyList [8, 7, 7]" "[8, 7, 7]" 4 7]
  by (simp add: INT_MAX_def py_is_def)

text \<open>
  A list of \<open>2 ^ 31\<close> items, each of them the object \<open>5\<close>. The counter passes
  \<open>INT_MAX\<close> and wraps around: after the index \<open>0\<close> the negative number \<open>INT_MIN\<close>
  is yielded, so the indices are not increasing, and the generator is still running after
  more rounds than the list has items.
\<close>

theorem find_in_tuple_or_list_identity_counterexample:
  "length (replicate (2 ^ 31) (5::nat)) = 2 ^ 31 \<and>
   INT_MIN \<in> set (fst (find_in_tuple_or_list (Suc (2 ^ 31)) 5 (PyList (replicate (2 ^ 31) 5)))) \<and>
   \<not> sorted_wrt (<) (fst (find_in_tuple_or_list (Suc (2 ^ 31)) 5 (PyList (replicate (2 ^ 31) 5)))) \<and>
   snd (find_in_tuple_or_list (Suc (2 ^ 31)) 5 (PyList (replicate (2 ^ 31) 5))) = Running"
proof -
  let ?xs = "replicate (2 ^ 31) (5::nat)"
  have len: "INT_MAX < int (length ?xs)" by (simp add: INT_MAX_def)
  have all: "\<forall>x \<in> set ?xs. x = 5" by simp
  have later: "INT_MIN \<in> set (fst (find_in_list (2 ^ 31) 5 ?xs (length ?xs) 1))"
    by (rule find_in_list_wraps [OF len all]) (simp_all add: INT_MIN_def INT_MAX_def)
  have first: "list_getitem ?xs 0 = Inr 5"
    by (simp add: list_getitem_def)
  have unfold: "fst (find_in_tuple_or_list (Suc (2 ^ 31)) 5 (PyList ?xs)) =
      0 # fst (find_in_list (2 ^ 31) 5 ?xs (length ?xs) 1)"
    unfolding find_in_tuple_or_list.simps list_branch_def using first
    by (subst find_in_list.simps(2)) (simp add: gen_then_def py_is_def cint_succ_def INT_MAX_def)
  have "snd (find_in_tuple_or_list (Suc (2 ^ 31)) 5 (PyList ?xs)) = Running"
    unfolding find_in_tuple_or_list.simps list_branch_def
    by (rule find_in_list_running [OF len]) (simp_all add: INT_MIN_def INT_MAX_def)
  moreover have "\<not> sorted_wrt (<) (0 # fst (find_in_list (2 ^ 31) 5 ?xs (length ?xs) 1))"
  proof
    assume "sorted_wrt (<) (0 # fst (find_in_list (2 ^ 31) 5 ?xs (length ?xs) 1))"
    with later have "0 < INT_MIN" by simp
    then show False by (simp add: INT_MIN_def)
  qed
  ultimately show ?thesis using later unfold by simp
qed

text \<open>
  Claim C10, as amended. For a dict in which every stored key looks up to the value
  stored with it, and \<open>repr\<close> returns for every key, the output of
  \<open>get_dict_keys_dst\<close> depends on how often an object occurs in the referents list. If
  the object \<open>x\<close> occurs \<open>n\<close> times there and is the value of \<open>m\<close> entries of the
  dict, then \<open>n * m\<close> value edges to \<open>x\<close> are emitted. Counted by destination, the
  edges to \<open>x\<close> are these \<open>n * m\<close> value edges and \<open>n\<close> more \<open>'<key>'\<close> edges for
  each key that is \<open>x\<close>; where \<open>repr\<close> of no key is \<open>'<key>'\<close>, the value edges are
  those with another label.
\<close>

theorem dict_value_edge_multiplicity:
  assumes "lookups_ok d" and "reprs_return h d"
  shows "length (filter (\<lambda>e. snd e = x) (fst (get_dict_keys_dst h d referents))) =
           count_list referents x * length (filter (\<lambda>e. snd e = x) (dict_items d)) +
           count_list referents x * length (filter (\<lambda>e. fst e = x) (dict_items d)) \<and>
         ((\<forall>k \<in> set (dict_keys d). repr_str h k \<noteq> ''<key>'') \<longrightarrow>
            length (filter (\<lambda>e. snd e = x \<and> fst e \<noteq> Str ''<key>'')
                      (fst (get_dict_keys_dst h d referents))) =
              count_list referents x * length (filter (\<lambda>e. snd e = x) (dict_items d)))"
  using assms
  by (simp add: get_dict_keys_dst_ok referents_value_count referents_dst_count distrib_left
      dict_keys_def)

theorem dict_value_edge_multiplicity_witness:
  "lookups_ok (dict_of [(1, 9), (2, 9), (3, 4)]) \<and>
   reprs_return heap0 (dict_of [(1, 9), (2, 9), (3, 4)]) \<and>
   repr_str heap0 1 \<noteq> ''<key>'' \<and> repr_str heap0 2 \<noteq> ''<key>'' \<and>
   repr_str heap0 3 \<noteq> ''<key>'' \<and>
   count_list [9, 5, 9] (9::nat) = 2 \<and>
   length (filter (\<lambda>e. snd e = 9) [(1::nat, 9::nat), (2, 9), (3, 4)]) = 2 \<and>
   length (filter (\<lambda>e. snd e = 9 \<and> fst e \<noteq> Str ''<key>'')
     (fst (get_dict_keys_dst heap0 (dict_of [(1, 9), (2, 9), (3, 4)]) [9, 5, 9]))) = 4"
  using dict_value_edge_multiplicity
    [of "dict_of [(1, 9), (2, 9), (3, 4)]" heap0 9 "[9, 5, 9]"]
  by (simp add: lookups_ok_dict_of reprs_return_heap0 dict_of_simps repr_str_heap0)

text \<open>
  In the dict whose key \<open>8\<close> has become equal to its key \<open>7\<close>, the object \<open>1\<close>
  occurs once in the referents list and is the value of one entry, yet two value edges to
  it are emitted.
\<close>

theorem dict_value_edge_multiplicity_counterexample:
  "count_list [7, 1, 8, 2] (1::nat) = 1 \<and>
   length (filter (\<lambda>e. snd e = 1) (dict_items dict_equal_keys)) = 1 \<and>
   repr_str heap0 7 \<noteq> ''<key>'' \<and> repr_str heap0 8 \<noteq> ''<key>'' \<and>
   length (filter (\<lambda>e. snd e = 1 \<and> fst e \<noteq> Str ''<key>'')
     (fst (get_dict_keys_dst heap0 dict_equal_keys [7, 1, 8, 2]))) = 2"
  by (simp add: get_dict_keys_dst_def gen_seq_def gen_then_def gen_stop_def dict_keys_def
      dict_equal_keys_def py_is_def heap0_repr repr_str_heap0)

end
